theory Spec2Isabelle
  imports Main "HOL-Library.AList"
begin

section \<open>Constant propagation over the symbolic IR (miasm2/analysis/cst\_propag.py)\<close>

subsection \<open>Expressions\<close>

text \<open>
  Modelled from the spec: the expression classes of \<^verbatim>\<open>miasm2.expression.expression\<close> are
  imported by the analysis but are not part of the analysed file. The analysis only tells
  apart literals, identifiers and memory reads (\<^verbatim>\<open>is_int\<close>, \<^verbatim>\<open>is_id\<close>, \<^verbatim>\<open>is_mem\<close>) and rebuilds
  a memory read from its address and size (\<^verbatim>\<open>ExprMem(ptr, dst.size)\<close>); every other
  expression is an inner node over sub-expressions.
\<close>

datatype expr =
    ExprInt int nat
  | ExprId string nat
  | ExprMem expr nat
  | ExprOp string "expr list"
  | ExprCond expr expr expr
  | ExprSlice expr nat nat
  | ExprCompose "expr list"

fun is_int :: "expr \<Rightarrow> bool" where
  "is_int (ExprInt v sz) = True"
| "is_int e = False"

fun is_id :: "expr \<Rightarrow> bool" where
  "is_id (ExprId n sz) = True"
| "is_id e = False"

fun is_mem :: "expr \<Rightarrow> bool" where
  "is_mem (ExprMem a sz) = True"
| "is_mem e = False"

text \<open>
  Modelled from the spec: \<^verbatim>\<open>Expr.get_r\<close> is a method of the expression classes. The spec
  describes \<^verbatim>\<open>expr.get_r(mem_read=True)\<close> as "the set of leaf sub-expressions of expr that
  are read, including leaves nested inside memory-read addresses", a memory read being a
  leaf itself. The set is given as a list that enumerates it; with \<open>mem_read\<close> unset a
  memory read is opaque.
\<close>

fun get_r :: "bool \<Rightarrow> expr \<Rightarrow> expr list" where
  "get_r mem_read (ExprInt v sz) = [ExprInt v sz]"
| "get_r mem_read (ExprId n sz) = [ExprId n sz]"
| "get_r mem_read (ExprMem a sz) =
     (if mem_read then ExprMem a sz # get_r mem_read a else [ExprMem a sz])"
| "get_r mem_read (ExprOp opn args) = concat (map (get_r mem_read) args)"
| "get_r mem_read (ExprCond c a b) = get_r mem_read c @ get_r mem_read a @ get_r mem_read b"
| "get_r mem_read (ExprSlice a lo hi) = get_r mem_read a"
| "get_r mem_read (ExprCompose args) = concat (map (get_r mem_read) args)"

text \<open>
  Modelled from the spec: \<^verbatim>\<open>Expr.replace_expr(dct)\<close> is a method of the expression classes.
  It substitutes, in the expression, every sub-expression that is a key of the dictionary
  by the value stored for it; the children of a node are rewritten before the node itself
  is looked up.
\<close>

fun replace_expr :: "(expr \<times> expr) list \<Rightarrow> expr \<Rightarrow> expr" where
  "replace_expr dct (ExprInt v sz) =
     (case map_of dct (ExprInt v sz) of Some r \<Rightarrow> r | None \<Rightarrow> ExprInt v sz)"
| "replace_expr dct (ExprId n sz) =
     (case map_of dct (ExprId n sz) of Some r \<Rightarrow> r | None \<Rightarrow> ExprId n sz)"
| "replace_expr dct (ExprMem a sz) =
     (let e = ExprMem (replace_expr dct a) sz
      in case map_of dct e of Some r \<Rightarrow> r | None \<Rightarrow> e)"
| "replace_expr dct (ExprOp opn args) =
     (let e = ExprOp opn (map (replace_expr dct) args)
      in case map_of dct e of Some r \<Rightarrow> r | None \<Rightarrow> e)"
| "replace_expr dct (ExprCond c a b) =
     (let e = ExprCond (replace_expr dct c) (replace_expr dct a) (replace_expr dct b)
      in case map_of dct e of Some r \<Rightarrow> r | None \<Rightarrow> e)"
| "replace_expr dct (ExprSlice a lo hi) =
     (let e = ExprSlice (replace_expr dct a) lo hi
      in case map_of dct e of Some r \<Rightarrow> r | None \<Rightarrow> e)"
| "replace_expr dct (ExprCompose args) =
     (let e = ExprCompose (map (replace_expr dct) args)
      in case map_of dct e of Some r \<Rightarrow> r | None \<Rightarrow> e)"

subsection \<open>The IR and the symbolic execution engine\<close>

text \<open>
  Modelled from the spec: the classes \<^verbatim>\<open>AssignBlock\<close> and \<^verbatim>\<open>IRBlock\<close> of \<^verbatim>\<open>miasm2.ir.ir\<close> and the
  instruction class are not part of the analysed file. By the spec a block is an ordered
  sequence of assign-steps, each a mapping from destinations to sources with a reference
  to the originating instruction, which gives the operand list. The analysis reads
  \<^verbatim>\<open>instr.args\<close>, iterates an \<^verbatim>\<open>AssignBlock\<close> with \<^verbatim>\<open>iteritems\<close> and reads \<^verbatim>\<open>irb.label\<close> and
  \<^verbatim>\<open>irb.irs\<close>. A dictionary that the code iterates is an association list with distinct
  keys whose order stands for the iteration order, which the program does not control:
  \<open>map_of\<close> reads a key and \<open>AList.update\<close> is the item assignment \<^verbatim>\<open>d[k] = v\<close>.
\<close>

record instruction =
  mnemonic :: string
  args :: "expr list"

record assignblk =
  assigns :: "(expr \<times> expr) list"
  instr :: instruction

record 'l irblock =
  label :: 'l
  irs :: "assignblk list"

text \<open>What \<^verbatim>\<open>ir_arch.get_label\<close> accepts: an integer, an expression or a label.\<close>

datatype 'l addr = AddrInt int | AddrExpr expr | AddrLabel 'l

text \<open>
  The analysis consumes its collaborators through \<^verbatim>\<open>ir_arch\<close>: the label lookup, the block
  table \<^verbatim>\<open>ir_arch.blocks\<close> (the only part the analysis writes), the init registers
  \<^verbatim>\<open>ir_arch.arch.regs.all_regs_ids_init\<close>, and the operations of the
  \<^verbatim>\<open>SymbolicExecutionEngine\<close> built on it, of \<^verbatim>\<open>possible_values\<close> and of \<^verbatim>\<open>expr_simp\<close>. None of
  them is in the analysed file, so they are fields that every theorem leaves arbitrary.
  A symbolic state \<open>'s\<close> stands both for a \<^verbatim>\<open>StateEngine\<close> and for the symbols of an engine
  that \<^verbatim>\<open>set_state\<close> installed it in (\<^verbatim>\<open>get_state\<close> reads them back); \<^verbatim>\<open>emul_ir_block\<close> returns
  the destination expression and the engine's symbols after the block.
\<close>

record ('l, 's, 'i) ir_arch =
  get_label :: "'l addr \<Rightarrow> 'l"
  blocks :: "'l \<Rightarrow> 'l irblock option"
  all_regs_ids_init :: "expr list"
  StateEngine :: "'i \<Rightarrow> 's"
  merge :: "'s \<Rightarrow> 's \<Rightarrow> 's"
  emul_ir_block :: "'s \<Rightarrow> 'l \<Rightarrow> expr \<times> 's"
  del_mem_above_stack :: "'s \<Rightarrow> 's"
  possible_values :: "expr \<Rightarrow> expr list"
  eval_expr :: "'s \<Rightarrow> expr \<Rightarrow> expr"
  eval_ir :: "'s \<Rightarrow> assignblk \<Rightarrow> 's"
  expr_simp :: "expr \<Rightarrow> expr"

datatype error = AssertionError | KeyError

subsection \<open>\<^verbatim>\<open>is_expr_cst\<close>\<close>

text \<open>
  The \<^verbatim>\<open>for ... else\<close> loop of \<^verbatim>\<open>is_expr_cst\<close> over the elements: the three \<^verbatim>\<open>continue\<close> branches
  in the order of the source, \<^verbatim>\<open>return False\<close> for any other element, \<^verbatim>\<open>return True\<close> when the
  elements are exhausted.
\<close>

fun is_expr_cst_loop :: "expr list \<Rightarrow> expr list \<Rightarrow> bool" where
  "is_expr_cst_loop init [] = True"
| "is_expr_cst_loop init (element # elements) =
     (if is_mem element then is_expr_cst_loop init elements
      else if is_id element \<and> element \<in> set init then is_expr_cst_loop init elements
      else if is_int element then is_expr_cst_loop init elements
      else False)"

definition is_expr_cst :: "('l, 's, 'i) ir_arch \<Rightarrow> expr \<Rightarrow> bool" where
  "is_expr_cst ir_arch expr =
     is_expr_cst_loop (all_regs_ids_init ir_arch) (get_r True expr)"

subsection \<open>\<^verbatim>\<open>SymbExecStateFix\<close>\<close>

text \<open>
  The object state of a \<^verbatim>\<open>SymbExecStateFix\<close>: its \<^verbatim>\<open>ir_arch\<close>, the engine's symbols and the
  shared dictionary \<^verbatim>\<open>cst_propag_link\<close>. The dictionary is kept as the chronological list of
  its item assignments, so that the number of writes to a key can be counted; the
  dictionary it denotes reads the latest assignment of a key (\<open>link_table\<close>).
\<close>

type_synonym 'l link_log = "(('l \<times> nat) \<times> (expr \<times> expr) list) list"

definition link_table :: "'l link_log \<Rightarrow> ('l \<times> nat) \<Rightarrow> (expr \<times> expr) list option" where
  "link_table lg = map_of (rev lg)"

record ('l, 's, 'i) symb_exec_state_fix =
  fix_ir_arch :: "('l, 's, 'i) ir_arch"
  symbols :: 's
  cst_propag_link :: "'l link_log"

definition SymbExecStateFix ::
  "('l, 's, 'i) ir_arch \<Rightarrow> 's \<Rightarrow> 'l link_log \<Rightarrow> ('l, 's, 'i) symb_exec_state_fix" where
  "SymbExecStateFix ir_arch state lnk =
     \<lparr>fix_ir_arch = ir_arch, symbols = state, cst_propag_link = lnk\<rparr>"

text \<open>The loop of \<^verbatim>\<open>propag_expr_cst\<close> that fills the dictionary \<^verbatim>\<open>to_propag\<close>.\<close>

fun to_propag_loop ::
  "('l, 's, 'i) ir_arch \<Rightarrow> 's \<Rightarrow> expr list \<Rightarrow> (expr \<times> expr) list \<Rightarrow> (expr \<times> expr) list" where
  "to_propag_loop ir_arch st [] to_propag = to_propag"
| "to_propag_loop ir_arch st (element # elements) to_propag =
     (if \<not> is_id element then to_propag_loop ir_arch st elements to_propag
      else let val = eval_expr ir_arch st element in
        if is_expr_cst ir_arch val
        then to_propag_loop ir_arch st elements (AList.update element val to_propag)
        else to_propag_loop ir_arch st elements to_propag)"

definition to_propag_of :: "('l, 's, 'i) ir_arch \<Rightarrow> 's \<Rightarrow> expr \<Rightarrow> (expr \<times> expr) list" where
  "to_propag_of ir_arch st expr = to_propag_loop ir_arch st (get_r True expr) []"

definition propag_expr_cst :: "('l, 's, 'i) ir_arch \<Rightarrow> 's \<Rightarrow> expr \<Rightarrow> expr" where
  "propag_expr_cst ir_arch st expr =
     expr_simp ir_arch (replace_expr (to_propag_of ir_arch st expr) expr)"

text \<open>The two inner loops of \<^verbatim>\<open>emulbloc\<close>: over the assignments, and over the operands.\<close>

fun new_assignblk_loop ::
  "('l, 's, 'i) ir_arch \<Rightarrow> 's \<Rightarrow> (expr \<times> expr) list \<Rightarrow> (expr \<times> expr) list \<Rightarrow> (expr \<times> expr) list" where
  "new_assignblk_loop ir_arch st [] new_assignblk = new_assignblk"
| "new_assignblk_loop ir_arch st ((dst, src) # rest) new_assignblk =
     (let src' = propag_expr_cst ir_arch st src;
          dst' = (case dst of
                    ExprMem ptr sz \<Rightarrow> ExprMem (propag_expr_cst ir_arch st ptr) sz
                  | _ \<Rightarrow> dst)
      in new_assignblk_loop ir_arch st rest (AList.update dst' src' new_assignblk))"

fun links_loop ::
  "('l, 's, 'i) ir_arch \<Rightarrow> 's \<Rightarrow> expr list \<Rightarrow> (expr \<times> expr) list \<Rightarrow> (expr \<times> expr) list" where
  "links_loop ir_arch st [] links = links"
| "links_loop ir_arch st (arg # rest) links =
     (let new_arg = propag_expr_cst ir_arch st arg
      in links_loop ir_arch st rest (AList.update new_arg arg links))"

text \<open>
  The outer loop of \<^verbatim>\<open>emulbloc\<close> over \<^verbatim>\<open>enumerate(irb.irs)\<close>: the rewritten assignments and the
  links are computed in the current symbols, the links are stored under
  \<^verbatim>\<open>(irb.label, index)\<close>, then \<^verbatim>\<open>self.eval_ir(assignblk)\<close> advances the symbols.
\<close>

fun emulbloc_loop ::
  "'l \<Rightarrow> nat \<Rightarrow> assignblk list \<Rightarrow> ('l, 's, 'i) symb_exec_state_fix \<Rightarrow> assignblk list
     \<Rightarrow> ('l, 's, 'i) symb_exec_state_fix \<times> assignblk list" where
  "emulbloc_loop lbl index [] self assignblks = (self, assignblks)"
| "emulbloc_loop lbl index (assignblk # rest) self assignblks =
     (let new_assignblk =
            new_assignblk_loop (fix_ir_arch self) (symbols self) (assigns assignblk) [];
          links = links_loop (fix_ir_arch self) (symbols self) (args (instr assignblk)) [];
          self1 = self\<lparr>cst_propag_link := cst_propag_link self @ [((lbl, index), links)]\<rparr>;
          self2 = self1\<lparr>symbols := eval_ir (fix_ir_arch self1) (symbols self1) assignblk\<rparr>
      in emulbloc_loop lbl (Suc index) rest self2
           (assignblks @ [\<lparr>assigns = new_assignblk, instr = instr assignblk\<rparr>]))"

definition emulbloc ::
  "('l, 's, 'i) symb_exec_state_fix \<Rightarrow> 'l irblock \<Rightarrow> ('l, 's, 'i) symb_exec_state_fix" where
  "emulbloc self irb =
     (let (self', assignblks) = emulbloc_loop (label irb) 0 (irs irb) self []
      in self'\<lparr>fix_ir_arch := (fix_ir_arch self')
           \<lparr>blocks := (blocks (fix_ir_arch self'))
              (label irb \<mapsto> \<lparr>label = label irb, irs = assignblks\<rparr>)\<rparr>\<rparr>)"

subsection \<open>\<^verbatim>\<open>compute_cst_propagation_states\<close>\<close>

text \<open>
  \<^verbatim>\<open>add_state\<close> updates the set \<^verbatim>\<open>todo\<close> and the dictionary \<^verbatim>\<open>states\<close> in place; here it returns
  both.
\<close>

definition add_state ::
  "('l, 's, 'i) ir_arch \<Rightarrow> 'l set \<Rightarrow> ('l \<times> 's) list \<Rightarrow> 'l addr \<Rightarrow> 's
     \<Rightarrow> 'l set \<times> ('l \<times> 's) list" where
  "add_state ir_arch todo states addr state =
     (let addr' = get_label ir_arch addr;
          todo' = insert addr' todo
      in case map_of states addr' of
           None \<Rightarrow> (todo', AList.update addr' state states)
         | Some old \<Rightarrow> (todo', AList.update addr' (merge ir_arch old state) states))"

text \<open>
  The local variables of the driver that live across iterations: the set \<^verbatim>\<open>todo\<close>, the
  dictionary \<^verbatim>\<open>states\<close> and the set \<^verbatim>\<open>done\<close>. Two observation fields are added: \<open>emulated\<close>
  lists, in order, the (label, state) pairs handed to \<^verbatim>\<open>emul_ir_block\<close>, and \<open>warnings\<close>
  lists the values passed to \<^verbatim>\<open>LOG_CST_PROPAG.warning\<close>.
\<close>

record ('l, 's) driver =
  todo :: "'l set"
  states :: "('l \<times> 's) list"
  done_set :: "('l \<times> 's) set"
  emulated :: "('l \<times> 's) list"
  warnings :: "expr list"

text \<open>
  The \<^verbatim>\<open>for dst in possible_values(addr)\<close> loop; \<open>st\<close> is what \<^verbatim>\<open>symbexec_engine.get_state()\<close>
  returns, the same at every pass since the engine is not run inside the loop.
\<close>

fun dst_loop ::
  "('l, 's, 'i) ir_arch \<Rightarrow> 's \<Rightarrow> expr list \<Rightarrow> ('l, 's) driver \<Rightarrow> ('l, 's) driver" where
  "dst_loop ir_arch st [] d = d"
| "dst_loop ir_arch st (val # rest) d =
     (if is_mem val then dst_loop ir_arch st rest (d\<lparr>warnings := warnings d @ [val]\<rparr>)
      else
        let val' = (if is_int val then AddrLabel (get_label ir_arch (AddrExpr val))
                    else AddrExpr val);
            (todo', states') = add_state ir_arch (todo d) (states d) val' st
        in dst_loop ir_arch st rest (d\<lparr>todo := todo', states := states'\<rparr>))"

text \<open>
  One pass of the \<^verbatim>\<open>while todo\<close> loop in which \<^verbatim>\<open>todo.pop()\<close> delivers \<open>lbl\<close>. The engine
  \<^verbatim>\<open>SymbExecState(ir_arch, state)\<close> is a fresh engine with the symbols \<open>state\<close>. A missing key
  in \<^verbatim>\<open>states[lbl]\<close> and a failed \<^verbatim>\<open>assert\<close> are the two exceptions of the pass; an exception
  ends the pass with the variables as they are when it is raised.
\<close>

definition loop_body ::
  "('l, 's, 'i) ir_arch \<Rightarrow> 'l \<Rightarrow> ('l, 's) driver \<Rightarrow> (error \<times> ('l, 's) driver) + ('l, 's) driver" where
  "loop_body ir_arch lbl d =
     (let d1 = d\<lparr>todo := todo d - {lbl}\<rparr>
      in case map_of (states d1) lbl of
           None \<Rightarrow> Inl (KeyError, d1)
         | Some state \<Rightarrow>
             if (lbl, state) \<in> done_set d1 then Inr d1
             else
               let d2 = d1\<lparr>done_set := insert (lbl, state) (done_set d1)\<rparr>
               in if blocks ir_arch lbl = None then Inl (AssertionError, d2)
                  else
                    let (addr, symbols1) = emul_ir_block ir_arch state lbl;
                        d3 = d2\<lparr>emulated := emulated d2 @ [(lbl, state)]\<rparr>;
                        symbols2 = del_mem_above_stack ir_arch symbols1
                    in Inr (dst_loop ir_arch symbols2 (possible_values ir_arch addr) d3))"

text \<open>
  The \<^verbatim>\<open>while todo\<close> loop. A Python set pops its elements in an order the program does not
  control, and the loop need not end; \<open>pops\<close> lists the labels that the successive
  \<^verbatim>\<open>todo.pop()\<close> deliver (a label that is not in \<^verbatim>\<open>todo\<close> cannot be delivered and is passed
  over). The run is \<open>Unfinished\<close> when \<open>pops\<close> is used up while \<^verbatim>\<open>todo\<close> is not empty.
\<close>

datatype status = Returned | Raised error | Unfinished

fun compute_loop ::
  "('l, 's, 'i) ir_arch \<Rightarrow> 'l list \<Rightarrow> ('l, 's) driver \<Rightarrow> status \<times> ('l, 's) driver" where
  "compute_loop ir_arch [] d = (if todo d = {} then (Returned, d) else (Unfinished, d))"
| "compute_loop ir_arch (lbl # pops) d =
     (if todo d = {} then (Returned, d)
      else if lbl \<notin> todo d then compute_loop ir_arch pops d
      else case loop_body ir_arch lbl d of
             Inl (e, d') \<Rightarrow> (Raised e, d')
           | Inr d' \<Rightarrow> compute_loop ir_arch pops d')"

text \<open>
  The function returns \<^verbatim>\<open>states\<close>; here it gives the status of the call and all the
  variables at its end, \<open>states\<close> among them.
\<close>

definition compute_cst_propagation_states ::
  "('l, 's, 'i) ir_arch \<Rightarrow> 'l list \<Rightarrow> 'l addr \<Rightarrow> 'i \<Rightarrow> status \<times> ('l, 's) driver" where
  "compute_cst_propagation_states ir_arch pops init_addr init_infos =
     (let state = StateEngine ir_arch init_infos;
          lbl = get_label ir_arch init_addr
      in compute_loop ir_arch pops
           \<lparr>todo = {lbl}, states = [(lbl, state)], done_set = {}, emulated = [],
            warnings = []\<rparr>)"

subsection \<open>\<^verbatim>\<open>propagate_cst_expr\<close>\<close>

text \<open>
  The loop over \<^verbatim>\<open>states.iteritems()\<close>, in the order of the list of items it is given;
  \<^verbatim>\<open>ir_arch.blocks[lbl]\<close> raises \<^verbatim>\<open>KeyError\<close> on a label without a block. The result is the
  status, \<^verbatim>\<open>ir_arch\<close> with the block table as rewritten so far, and \<^verbatim>\<open>cst_propag_link\<close>.
\<close>

fun propagate_loop ::
  "('l \<times> 's) list \<Rightarrow> ('l, 's, 'i) ir_arch \<Rightarrow> 'l link_log
     \<Rightarrow> status \<times> ('l, 's, 'i) ir_arch \<times> 'l link_log" where
  "propagate_loop [] ir_arch lnk = (Returned, ir_arch, lnk)"
| "propagate_loop ((lbl, state) # rest) ir_arch lnk =
     (let symbexec = SymbExecStateFix ir_arch state lnk
      in case blocks ir_arch lbl of
           None \<Rightarrow> (Raised KeyError, ir_arch, lnk)
         | Some irb \<Rightarrow>
             let symbexec' = emulbloc symbexec irb
             in propagate_loop rest (fix_ir_arch symbexec') (cst_propag_link symbexec'))"

definition propagate_cst_expr ::
  "('l, 's, 'i) ir_arch \<Rightarrow> 'l list \<Rightarrow> 'l addr \<Rightarrow> 'i
     \<Rightarrow> status \<times> ('l, 's, 'i) ir_arch \<times> 'l link_log" where
  "propagate_cst_expr ir_arch pops addr init_infos =
     (case compute_cst_propagation_states ir_arch pops addr init_infos of
        (Returned, d) \<Rightarrow> propagate_loop (states d) ir_arch []
      | (st, d) \<Rightarrow> (st, ir_arch, []))"

subsection \<open>An instance of the collaborators\<close>

text \<open>
  A small engine on which the analysis can be run: labels are numbers, a state is the
  association list of the known locations, evaluation substitutes the known values,
  an assign-block updates its destinations with the values of its sources in the state
  before it, the destination of a block is the value of \<open>IRDst\<close>, two states merge to the
  entries they agree on, and the simplifier adds two literals. It is used only to run
  the definitions on concrete inputs.
\<close>

fun sample_get_label :: "nat addr \<Rightarrow> nat" where
  "sample_get_label (AddrInt n) = nat n"
| "sample_get_label (AddrExpr (ExprInt v sz)) = nat v"
| "sample_get_label (AddrExpr e) = 0"
| "sample_get_label (AddrLabel l) = l"

definition sample_eval_ir :: "(expr \<times> expr) list \<Rightarrow> assignblk \<Rightarrow> (expr \<times> expr) list" where
  "sample_eval_ir st blk =
     foldl (\<lambda>acc (dst, src). AList.update dst (replace_expr st src) acc) st (assigns blk)"

definition sample_emul_ir_block ::
  "(nat \<Rightarrow> nat irblock option) \<Rightarrow> (expr \<times> expr) list \<Rightarrow> nat \<Rightarrow> expr \<times> (expr \<times> expr) list" where
  "sample_emul_ir_block blks st lbl =
     (case blks lbl of
        None \<Rightarrow> (ExprInt (int lbl) 32, st)
      | Some irb \<Rightarrow>
          let st' = foldl sample_eval_ir st (irs irb)
          in (replace_expr st' (ExprId ''IRDst'' 32), st'))"

definition sample_merge :: "(expr \<times> expr) list \<Rightarrow> (expr \<times> expr) list \<Rightarrow> (expr \<times> expr) list" where
  "sample_merge a b = filter (\<lambda>(k, v). map_of b k = Some v) a"

fun sample_possible_values :: "expr \<Rightarrow> expr list" where
  "sample_possible_values (ExprCond c a b) = [a, b]"
| "sample_possible_values e = [e]"

fun sample_expr_simp :: "expr \<Rightarrow> expr" where
  "sample_expr_simp (ExprOp opn [ExprInt a sz, ExprInt b sz']) =
     (if opn = ''+'' then ExprInt (a + b) sz else ExprOp opn [ExprInt a sz, ExprInt b sz'])"
| "sample_expr_simp e = e"

definition sample_arch ::
  "(nat \<Rightarrow> nat irblock option) \<Rightarrow> (nat, (expr \<times> expr) list, (expr \<times> expr) list) ir_arch" where
  "sample_arch blks =
     \<lparr>get_label = sample_get_label,
      blocks = blks,
      all_regs_ids_init = [ExprId ''EAX_init'' 32, ExprId ''ESP_init'' 32],
      StateEngine = (\<lambda>init_infos. init_infos),
      merge = sample_merge,
      emul_ir_block = sample_emul_ir_block blks,
      del_mem_above_stack = (\<lambda>st. st),
      possible_values = sample_possible_values,
      eval_expr = (\<lambda>st e. replace_expr st e),
      eval_ir = sample_eval_ir,
      expr_simp = sample_expr_simp\<rparr>"

text \<open>
  Block 0 compares \<open>EAX\<close> with \<open>EBX\<close> and jumps to block 1; block 1 loads \<open>1 + 2\<close> into \<open>EBX\<close>
  and returns through the stack, so its destination is a memory read.
\<close>

definition sample_block0 :: "nat irblock" where
  "sample_block0 =
     \<lparr>label = 0, irs =
        [\<lparr>assigns = [(ExprId ''zf'' 1, ExprOp ''=='' [ExprId ''EAX'' 32, ExprId ''EBX'' 32]),
                     (ExprId ''IRDst'' 32, ExprInt 1 32)],
          instr = \<lparr>mnemonic = ''CMP'', args = [ExprId ''EAX'' 32, ExprId ''EBX'' 32]\<rparr>\<rparr>]\<rparr>"

definition sample_block1 :: "nat irblock" where
  "sample_block1 =
     \<lparr>label = 1, irs =
        [\<lparr>assigns = [(ExprId ''EBX'' 32, ExprOp ''+'' [ExprInt 1 32, ExprInt 2 32])],
          instr = \<lparr>mnemonic = ''LEA'',
                   args = [ExprId ''EBX'' 32, ExprOp ''+'' [ExprInt 1 32, ExprInt 2 32]]\<rparr>\<rparr>,
         \<lparr>assigns = [(ExprId ''IRDst'' 32, ExprMem (ExprId ''ESP'' 32) 32)],
          instr = \<lparr>mnemonic = ''RET'', args = []\<rparr>\<rparr>]\<rparr>"

definition sample_blocks :: "nat \<Rightarrow> nat irblock option" where
  "sample_blocks = [0 \<mapsto> sample_block0, 1 \<mapsto> sample_block1]"

definition sample_infos :: "(expr \<times> expr) list" where
  "sample_infos = [(ExprId ''EAX'' 32, ExprInt 5 32), (ExprId ''EBX'' 32, ExprInt 5 32)]"

text \<open>
  The table without block 1, the state in which block 1 is entered, and the variables of
  the driver when it starts at label 0 with \<open>sample_infos\<close> and after its first pass over
  \<open>sample_blocks\<close>.
\<close>

definition sample_blocks_only0 :: "nat \<Rightarrow> nat irblock option" where
  "sample_blocks_only0 = [0 \<mapsto> sample_block0]"

definition sample_state1 :: "(expr \<times> expr) list" where
  "sample_state1 =
     [(ExprId ''EAX'' 32, ExprInt 5 32), (ExprId ''EBX'' 32, ExprInt 5 32),
      (ExprId ''zf'' 1, ExprOp ''=='' [ExprInt 5 32, ExprInt 5 32]),
      (ExprId ''IRDst'' 32, ExprInt 1 32)]"

definition sample_driver0 :: "(nat, (expr \<times> expr) list) driver" where
  "sample_driver0 =
     \<lparr>todo = {0}, states = [(0, sample_infos)], done_set = {}, emulated = [],
      warnings = []\<rparr>"

definition sample_driver1 :: "(nat, (expr \<times> expr) list) driver" where
  "sample_driver1 =
     \<lparr>todo = {1}, states = [(0, sample_infos), (1, sample_state1)],
      done_set = {(0, sample_infos)}, emulated = [(0, sample_infos)], warnings = []\<rparr>"

subsection \<open>Notions used to state the properties\<close>

text \<open>
  The substitution that touches identifiers only: every identifier is replaced by its
  image under \<open>f\<close>, every other node keeps its constructor and its fields and has its
  sub-expressions substituted.
\<close>

fun subst_ids :: "(expr \<Rightarrow> expr) \<Rightarrow> expr \<Rightarrow> expr" where
  "subst_ids f (ExprInt v sz) = ExprInt v sz"
| "subst_ids f (ExprId n sz) = f (ExprId n sz)"
| "subst_ids f (ExprMem a sz) = ExprMem (subst_ids f a) sz"
| "subst_ids f (ExprOp opn es) = ExprOp opn (map (subst_ids f) es)"
| "subst_ids f (ExprCond c a b) = ExprCond (subst_ids f c) (subst_ids f a) (subst_ids f b)"
| "subst_ids f (ExprSlice a lo hi) = ExprSlice (subst_ids f a) lo hi"
| "subst_ids f (ExprCompose es) = ExprCompose (map (subst_ids f) es)"

text \<open>
  The label under which the driver files a destination value that is not a memory
  read: a literal goes through \<^verbatim>\<open>get_label\<close> in the driver and, as a label, once more in
  \<^verbatim>\<open>add_state\<close>; any other value goes through \<^verbatim>\<open>get_label\<close> in \<^verbatim>\<open>add_state\<close> only.
\<close>

definition successor_label :: "('l, 's, 'i) ir_arch \<Rightarrow> expr \<Rightarrow> 'l" where
  "successor_label ir_arch val =
     get_label ir_arch
       (if is_int val then AddrLabel (get_label ir_arch (AddrExpr val)) else AddrExpr val)"

text \<open>
  What the entry of a label becomes when the state \<open>st\<close> is filed \<open>n\<close> times under it:
  the first filing stores \<open>st\<close> when there is no entry and merges \<open>st\<close> into the entry
  otherwise; every later filing merges \<open>st\<close> into the entry.
\<close>

fun filed :: "('l, 's, 'i) ir_arch \<Rightarrow> 's \<Rightarrow> nat \<Rightarrow> 's option \<Rightarrow> 's option" where
  "filed ir_arch st 0 entry = entry"
| "filed ir_arch st (Suc n) entry =
     filed ir_arch st n
       (Some (case entry of None \<Rightarrow> st | Some old \<Rightarrow> merge ir_arch old st))"

text \<open>
  The links and the rewritten assign-block of step \<open>j\<close> of a block, computed in the state
  that the original steps before \<open>j\<close> produce from the entering state \<open>st\<close>.
\<close>

definition step_links ::
  "('l, 's, 'i) ir_arch \<Rightarrow> 's \<Rightarrow> assignblk list \<Rightarrow> nat \<Rightarrow> (expr \<times> expr) list" where
  "step_links ir_arch st blks j =
     links_loop ir_arch (foldl (eval_ir ir_arch) st (take j blks)) (args (instr (blks ! j))) []"

definition step_assignblk ::
  "('l, 's, 'i) ir_arch \<Rightarrow> 's \<Rightarrow> assignblk list \<Rightarrow> nat \<Rightarrow> assignblk" where
  "step_assignblk ir_arch st blks j =
     \<lparr>assigns = new_assignblk_loop ir_arch (foldl (eval_ir ir_arch) st (take j blks))
                  (assigns (blks ! j)) [],
      instr = instr (blks ! j)\<rparr>"

text \<open>
  The writes of the rewrite of one block into \<^verbatim>\<open>cst_propag_link\<close>: one per step, in order,
  under the key (label, step index). A block table is well formed when every block is
  stored under its own label.
\<close>

definition block_links ::
  "('l, 's, 'i) ir_arch \<Rightarrow> 'l \<Rightarrow> 's \<Rightarrow> 'l irblock \<Rightarrow> 'l link_log" where
  "block_links ir_arch lbl st irb =
     map (\<lambda>j. ((lbl, j), step_links ir_arch st (irs irb) j)) [0..<length (irs irb)]"

definition wf_blocks :: "('l \<Rightarrow> 'l irblock option) \<Rightarrow> bool" where
  "wf_blocks blks \<longleftrightarrow> (\<forall>l b. blks l = Some b \<longrightarrow> label b = l)"

text \<open>
  What holds of the variables of the driver at the head of its loop: no pair was
  emulated twice, every emulated pair is marked done, every label of \<^verbatim>\<open>todo\<close> has an
  entering state, and every pair marked done passed the assertion on its block.
\<close>

definition driver_inv :: "('l, 's, 'i) ir_arch \<Rightarrow> ('l, 's) driver \<Rightarrow> bool" where
  "driver_inv ir d \<longleftrightarrow>
     distinct (emulated d) \<and> set (emulated d) \<subseteq> done_set d
     \<and> (\<forall>l \<in> todo d. map_of (states d) l \<noteq> None)
     \<and> (\<forall>p \<in> done_set d. blocks ir (fst p) \<noteq> None)"

section \<open>Properties\<close>

text \<open>The definitions of the sample instance, and what its fields are.\<close>

lemmas sample_defs =
  sample_arch_def sample_blocks_def sample_block0_def sample_block1_def sample_infos_def
  sample_emul_ir_block_def sample_eval_ir_def sample_merge_def sample_blocks_only0_def
  sample_state1_def sample_driver0_def sample_driver1_def

lemma sample_arch_sel:
  "get_label (sample_arch b) = sample_get_label"
  "blocks (sample_arch b) = b"
  "merge (sample_arch b) = sample_merge"
  "emul_ir_block (sample_arch b) = sample_emul_ir_block b"
  "del_mem_above_stack (sample_arch b) = (\<lambda>st. st)"
  "possible_values (sample_arch b) = sample_possible_values"
  by (simp_all add: sample_arch_def)

subsection \<open>The constant classifier\<close>

lemma is_expr_cst_loop_all:
  "is_expr_cst_loop init elements \<longleftrightarrow>
     (\<forall>element \<in> set elements.
        is_mem element \<or> (is_id element \<and> element \<in> set init) \<or> is_int element)"
  by (induction elements) auto

text \<open>
  C1. \<^verbatim>\<open>is_expr_cst(ir_arch, expr)\<close> is true exactly when every element that
  \<^verbatim>\<open>expr.get_r(mem_read=True)\<close> yields is accepted: a memory read always, an identifier only
  when it is one of the init registers, a literal always, anything else never. The
  equivalence holds whatever list of elements \<^verbatim>\<open>get_r\<close> delivers, in any order.
\<close>

theorem is_expr_cst_iff_all_accepted:
  "is_expr_cst ir_arch expr \<longleftrightarrow>
     (\<forall>element \<in> set (get_r True expr).
        is_mem element \<or> (is_id element \<and> element \<in> set (all_regs_ids_init ir_arch))
          \<or> is_int element)"
  unfolding is_expr_cst_def by (rule is_expr_cst_loop_all)

theorem is_expr_cst_iff_all_accepted_witness:
  "is_expr_cst (sample_arch sample_blocks)
     (ExprOp ''+'' [ExprId ''EAX_init'' 32, ExprMem (ExprInt 4 32) 32])
   \<and> \<not> is_expr_cst (sample_arch sample_blocks)
         (ExprOp ''+'' [ExprId ''EAX_init'' 32, ExprId ''EBX'' 32])"
  using is_expr_cst_iff_all_accepted
          [of "sample_arch sample_blocks"
              "ExprOp ''+'' [ExprId ''EAX_init'' 32, ExprMem (ExprInt 4 32) 32]"]
        is_expr_cst_iff_all_accepted
          [of "sample_arch sample_blocks"
              "ExprOp ''+'' [ExprId ''EAX_init'' 32, ExprId ''EBX'' 32]"]
  by (simp add: sample_arch_def)

lemma get_r_opaque:
  "set (get_r True e) = (\<Union>x \<in> set (get_r False e). set (get_r True x))"
  by (induction e) auto

text \<open>
  C2, as the claim states it, fails: the memory read of an address that reads the
  identifier \<open>EBX\<close>, which is not an init register, is the only leaf of the expression and
  is classified as not constant, because \<^verbatim>\<open>get_r(mem_read=True)\<close> also yields the elements
  read by the address.
\<close>

theorem mem_leaf_nonconstant_address_counterexample:
  "is_mem (ExprMem (ExprId ''EBX'' 32) 32)
   \<and> ExprId ''EBX'' 32 \<notin> set (all_regs_ids_init (sample_arch sample_blocks))
   \<and> get_r False (ExprMem (ExprId ''EBX'' 32) 32) = [ExprMem (ExprId ''EBX'' 32) 32]
   \<and> \<not> is_expr_cst (sample_arch sample_blocks) (ExprMem (ExprId ''EBX'' 32) 32)"
  by (simp add: is_expr_cst_def sample_arch_def)

text \<open>
  C2, amended. For an expression whose only leaf is a memory read (the one element it
  reads when memory reads are opaque), \<^verbatim>\<open>is_expr_cst\<close> returns the verdict of the address of
  that memory read: true when the address is itself classified constant, false when it
  is not.
\<close>

theorem mem_leaf_follows_address:
  assumes "set (get_r False expr) = {ExprMem a sz}"
  shows "is_expr_cst ir_arch expr \<longleftrightarrow> is_expr_cst ir_arch a"
proof -
  have "set (get_r True expr) = insert (ExprMem a sz) (set (get_r True a))"
    using assms by (simp add: get_r_opaque [of expr])
  then show ?thesis
    by (simp add: is_expr_cst_def is_expr_cst_loop_all)
qed

theorem mem_leaf_follows_address_witness:
  "set (get_r False (ExprSlice (ExprMem (ExprId ''ESP_init'' 32) 32) 0 8))
     = {ExprMem (ExprId ''ESP_init'' 32) 32}
   \<and> is_expr_cst (sample_arch sample_blocks) (ExprId ''ESP_init'' 32)
   \<and> is_expr_cst (sample_arch sample_blocks)
       (ExprSlice (ExprMem (ExprId ''ESP_init'' 32) 32) 0 8)"
proof -
  have h: "set (get_r False (ExprSlice (ExprMem (ExprId ''ESP_init'' 32) 32) 0 8))
             = {ExprMem (ExprId ''ESP_init'' 32) 32}"
    by simp
  have c: "is_expr_cst (sample_arch sample_blocks) (ExprId ''ESP_init'' 32)"
    by (simp add: is_expr_cst_def sample_arch_def)
  show ?thesis
    using h c mem_leaf_follows_address [OF h, of "sample_arch sample_blocks"] by simp
qed

subsection \<open>The substitution of \<^verbatim>\<open>propag_expr_cst\<close>\<close>

lemma to_propag_loop_map_of:
  "map_of (to_propag_loop ir st els tp) k =
     (if k \<in> set els \<and> is_id k \<and> is_expr_cst ir (eval_expr ir st k)
      then Some (eval_expr ir st k) else map_of tp k)"
  by (induction els arbitrary: tp) (auto simp: Let_def update_conv')

lemma to_propag_of_map_of:
  "map_of (to_propag_of ir st expr) k =
     (if k \<in> set (get_r True expr) \<and> is_id k \<and> is_expr_cst ir (eval_expr ir st k)
      then Some (eval_expr ir st k) else None)"
  by (simp add: to_propag_of_def to_propag_loop_map_of)

lemma not_id_lookup:
  "\<forall>k v. map_of dct k = Some v \<longrightarrow> is_id k \<Longrightarrow> \<not> is_id e \<Longrightarrow> map_of dct e = None"
  by (cases "map_of dct e") auto

lemma replace_expr_ids:
  assumes "\<forall>k v. map_of dct k = Some v \<longrightarrow> is_id k"
  shows "replace_expr dct e =
           subst_ids (\<lambda>i. case map_of dct i of Some r \<Rightarrow> r | None \<Rightarrow> i) e"
proof (induction e)
  case (ExprInt v sz)
  show ?case using not_id_lookup [OF assms, of "ExprInt v sz"] by simp
next
  case (ExprId n sz)
  show ?case by simp
next
  case (ExprMem e sz)
  show ?case using not_id_lookup [OF assms, of "ExprMem (replace_expr dct e) sz"] ExprMem
    by (simp add: Let_def)
next
  case (ExprOp opn es)
  have "map (replace_expr dct) es =
          map (subst_ids (\<lambda>i. case map_of dct i of Some r \<Rightarrow> r | None \<Rightarrow> i)) es"
    using ExprOp by simp
  then show ?case
    using not_id_lookup [OF assms, of "ExprOp opn (map (replace_expr dct) es)"]
    by (simp add: Let_def)
next
  case (ExprCond c a b)
  show ?case
    using not_id_lookup [OF assms,
            of "ExprCond (replace_expr dct c) (replace_expr dct a) (replace_expr dct b)"]
          ExprCond
    by (simp add: Let_def)
next
  case (ExprSlice e lo hi)
  show ?case
    using not_id_lookup [OF assms, of "ExprSlice (replace_expr dct e) lo hi"] ExprSlice
    by (simp add: Let_def)
next
  case (ExprCompose es)
  have "map (replace_expr dct) es =
          map (subst_ids (\<lambda>i. case map_of dct i of Some r \<Rightarrow> r | None \<Rightarrow> i)) es"
    using ExprCompose by simp
  then show ?case
    using not_id_lookup [OF assms, of "ExprCompose (map (replace_expr dct) es)"]
    by (simp add: Let_def)
qed

lemma subst_ids_cong:
  "(\<And>i. i \<in> set (get_r True e) \<Longrightarrow> is_id i \<Longrightarrow> f i = g i) \<Longrightarrow> subst_ids f e = subst_ids g e"
proof (induction e)
  case (ExprOp opn es)
  have "map (subst_ids f) es = map (subst_ids g) es"
  proof (rule map_cong [OF refl])
    fix x assume x: "x \<in> set es"
    show "subst_ids f x = subst_ids g x"
      by (rule ExprOp.IH [OF x]) (use x ExprOp.prems in auto)
  qed
  then show ?case by simp
next
  case (ExprCompose es)
  have "map (subst_ids f) es = map (subst_ids g) es"
  proof (rule map_cong [OF refl])
    fix x assume x: "x \<in> set es"
    show "subst_ids f x = subst_ids g x"
      by (rule ExprCompose.IH [OF x]) (use x ExprCompose.prems in auto)
  qed
  then show ?case by simp
qed simp_all

text \<open>
  C9. Every key of the dictionary \<^verbatim>\<open>to_propag\<close> is an identifier, its value is the
  evaluation of that identifier in the current state, and that value is classified
  constant by \<^verbatim>\<open>is_expr_cst\<close>. Hence the expression that \<^verbatim>\<open>propag_expr_cst\<close> hands to the
  simplifier is the original one in which identifiers only have been replaced, each by
  its evaluated value exactly when that value is constant: a memory read keeps its
  place (only the identifiers of its address are substituted), whatever its own value.
\<close>

theorem propag_only_identifiers:
  "(\<forall>k v. map_of (to_propag_of ir st expr) k = Some v \<longrightarrow>
       is_id k \<and> v = eval_expr ir st k \<and> is_expr_cst ir v)
   \<and> propag_expr_cst ir st expr =
       expr_simp ir (subst_ids (\<lambda>i. if is_expr_cst ir (eval_expr ir st i)
                                     then eval_expr ir st i else i) expr)"
proof
  show keys: "\<forall>k v. map_of (to_propag_of ir st expr) k = Some v \<longrightarrow>
       is_id k \<and> v = eval_expr ir st k \<and> is_expr_cst ir v"
    by (simp add: to_propag_of_map_of split: if_splits)
  have "replace_expr (to_propag_of ir st expr) expr =
          subst_ids (\<lambda>i. case map_of (to_propag_of ir st expr) i of Some r \<Rightarrow> r | None \<Rightarrow> i) expr"
    by (rule replace_expr_ids) (use keys in blast)
  also have "\<dots> = subst_ids (\<lambda>i. if is_expr_cst ir (eval_expr ir st i)
                                     then eval_expr ir st i else i) expr"
    by (rule subst_ids_cong) (simp add: to_propag_of_map_of)
  finally show "propag_expr_cst ir st expr =
       expr_simp ir (subst_ids (\<lambda>i. if is_expr_cst ir (eval_expr ir st i)
                                     then eval_expr ir st i else i) expr)"
    by (simp add: propag_expr_cst_def)
qed

theorem propag_only_identifiers_witness:
  "map_of (to_propag_of (sample_arch sample_blocks)
             [(ExprId ''EAX'' 32, ExprInt 5 32), (ExprMem (ExprId ''ECX'' 32) 32, ExprInt 7 32)]
             (ExprOp ''+'' [ExprId ''EAX'' 32, ExprMem (ExprId ''ECX'' 32) 32]))
          (ExprId ''EAX'' 32) = Some (ExprInt 5 32)
   \<and> is_id (ExprId ''EAX'' 32)
   \<and> is_expr_cst (sample_arch sample_blocks) (ExprInt 5 32)
   \<and> eval_expr (sample_arch sample_blocks)
        [(ExprId ''EAX'' 32, ExprInt 5 32), (ExprMem (ExprId ''ECX'' 32) 32, ExprInt 7 32)]
        (ExprMem (ExprId ''ECX'' 32) 32) = ExprInt 7 32
   \<and> is_expr_cst (sample_arch sample_blocks) (ExprInt 7 32)
   \<and> propag_expr_cst (sample_arch sample_blocks)
        [(ExprId ''EAX'' 32, ExprInt 5 32), (ExprMem (ExprId ''ECX'' 32) 32, ExprInt 7 32)]
        (ExprOp ''+'' [ExprId ''EAX'' 32, ExprMem (ExprId ''ECX'' 32) 32])
       = ExprOp ''+'' [ExprInt 5 32, ExprMem (ExprId ''ECX'' 32) 32]"
proof -
  have h: "map_of (to_propag_of (sample_arch sample_blocks)
             [(ExprId ''EAX'' 32, ExprInt 5 32), (ExprMem (ExprId ''ECX'' 32) 32, ExprInt 7 32)]
             (ExprOp ''+'' [ExprId ''EAX'' 32, ExprMem (ExprId ''ECX'' 32) 32]))
          (ExprId ''EAX'' 32) = Some (ExprInt 5 32)"
    by (simp add: to_propag_of_def is_expr_cst_def sample_arch_def)
  show ?thesis
    using h propag_only_identifiers
            [of "sample_arch sample_blocks"
                "[(ExprId ''EAX'' 32, ExprInt 5 32), (ExprMem (ExprId ''ECX'' 32) 32, ExprInt 7 32)]"
                "ExprOp ''+'' [ExprId ''EAX'' 32, ExprMem (ExprId ''ECX'' 32) 32]"]
    by (simp add: is_expr_cst_def sample_arch_def)
qed

subsection \<open>The rewrite pass on one block\<close>

lemma emulbloc_loop_ir:
  "fix_ir_arch (fst (emulbloc_loop lbl i blks self acc)) = fix_ir_arch self"
  by (induction blks arbitrary: i self acc) (simp_all add: Let_def)

lemma emulbloc_loop_symbols:
  "symbols (fst (emulbloc_loop lbl i blks self acc)) =
     foldl (eval_ir (fix_ir_arch self)) (symbols self) blks"
  by (induction blks arbitrary: i self acc) (simp_all add: Let_def)

lemma upt_shift: "map f [0..<Suc n] = f 0 # map (\<lambda>j. f (Suc j)) [0..<n]"
  by (simp add: upt_conv_Cons map_Suc_upt [symmetric] del: upt_Suc)

lemma emulbloc_loop_link:
  "cst_propag_link (fst (emulbloc_loop lbl i blks self acc)) =
     cst_propag_link self @
       map (\<lambda>j. ((lbl, i + j), step_links (fix_ir_arch self) (symbols self) blks j))
         [0..<length blks]"
proof (induction blks arbitrary: i self acc)
  case Nil
  then show ?case by simp
next
  case (Cons b blks)
  show ?case
    by (simp add: Let_def Cons.IH upt_shift step_links_def del: upt_Suc)
qed

lemma emulbloc_loop_assignblks:
  "snd (emulbloc_loop lbl i blks self acc) =
     acc @ map (step_assignblk (fix_ir_arch self) (symbols self) blks) [0..<length blks]"
proof (induction blks arbitrary: i self acc)
  case Nil
  then show ?case by simp
next
  case (Cons b blks)
  show ?case
    by (simp add: Let_def Cons.IH upt_shift step_assignblk_def del: upt_Suc)
qed

lemma emulbloc_symbols:
  "symbols (emulbloc self irb) =
     foldl (eval_ir (fix_ir_arch self)) (symbols self) (irs irb)"
  using emulbloc_loop_symbols [of "label irb" 0 "irs irb" self "[]"]
  by (simp add: emulbloc_def split_beta Let_def)

lemma emulbloc_link:
  "cst_propag_link (emulbloc self irb) =
     cst_propag_link self @
       map (\<lambda>j. ((label irb, j), step_links (fix_ir_arch self) (symbols self) (irs irb) j))
         [0..<length (irs irb)]"
  using emulbloc_loop_link [of "label irb" 0 "irs irb" self "[]"]
  by (simp add: emulbloc_def split_beta Let_def)

lemma emulbloc_ir:
  "fix_ir_arch (emulbloc self irb) =
     (fix_ir_arch self)\<lparr>blocks := (blocks (fix_ir_arch self))
        (label irb \<mapsto> \<lparr>label = label irb,
           irs = map (step_assignblk (fix_ir_arch self) (symbols self) (irs irb))
                   [0..<length (irs irb)]\<rparr>)\<rparr>"
  using emulbloc_loop_ir [of "label irb" 0 "irs irb" self "[]"]
        emulbloc_loop_assignblks [of "label irb" 0 "irs irb" self "[]"]
  by (simp add: emulbloc_def split_beta Let_def)

text \<open>
  C8. \<^verbatim>\<open>emulbloc\<close> advances the symbols with the original assign-blocks: the symbols at
  the end are the original steps of the block evaluated in order from the entering
  symbols, the links stored for step \<open>j\<close> and the rewritten step \<open>j\<close> are computed in the
  symbols that the original steps before \<open>j\<close> produce, and the rewritten steps only go to
  the block table.
\<close>

theorem emulbloc_state_follows_original_steps:
  "symbols (emulbloc self irb) =
     foldl (eval_ir (fix_ir_arch self)) (symbols self) (irs irb)
   \<and> cst_propag_link (emulbloc self irb) =
       cst_propag_link self @
         map (\<lambda>j. ((label irb, j), step_links (fix_ir_arch self) (symbols self) (irs irb) j))
           [0..<length (irs irb)]
   \<and> blocks (fix_ir_arch (emulbloc self irb)) (label irb) =
       Some \<lparr>label = label irb,
             irs = map (step_assignblk (fix_ir_arch self) (symbols self) (irs irb))
                     [0..<length (irs irb)]\<rparr>"
  by (simp add: emulbloc_symbols emulbloc_link emulbloc_ir)

theorem emulbloc_state_follows_original_steps_witness:
  "symbols (emulbloc (SymbExecStateFix (sample_arch sample_blocks) sample_infos []) sample_block1)
     = [(ExprId ''EAX'' 32, ExprInt 5 32),
        (ExprId ''EBX'' 32, ExprOp ''+'' [ExprInt 1 32, ExprInt 2 32]),
        (ExprId ''IRDst'' 32, ExprMem (ExprId ''ESP'' 32) 32)]
   \<and> blocks (fix_ir_arch
         (emulbloc (SymbExecStateFix (sample_arch sample_blocks) sample_infos []) sample_block1)) 1
     = Some \<lparr>label = 1, irs =
         [\<lparr>assigns = [(ExprId ''EBX'' 32, ExprInt 3 32)],
           instr = \<lparr>mnemonic = ''LEA'',
                    args = [ExprId ''EBX'' 32, ExprOp ''+'' [ExprInt 1 32, ExprInt 2 32]]\<rparr>\<rparr>,
          \<lparr>assigns = [(ExprId ''IRDst'' 32, ExprMem (ExprId ''ESP'' 32) 32)],
           instr = \<lparr>mnemonic = ''RET'', args = []\<rparr>\<rparr>]\<rparr>"
  using emulbloc_state_follows_original_steps
          [of "SymbExecStateFix (sample_arch sample_blocks) sample_infos []" sample_block1]
  by (simp add: SymbExecStateFix_def sample_arch_def sample_infos_def sample_block1_def
        sample_eval_ir_def step_assignblk_def propag_expr_cst_def to_propag_of_def
        is_expr_cst_def upt_conv_Cons Let_def del: upt_Suc)

lemma map_of_rev_indexed:
  "map_of (rev (map (\<lambda>j. ((lbl, j), f j)) [0..<n])) (l, j) =
     (if l = lbl \<and> j < n then Some (f j) else None)"
  by (induction n) auto

lemma link_table_append:
  "link_table (lg @ new) key =
     (case map_of (rev new) key of Some v \<Rightarrow> Some v | None \<Rightarrow> link_table lg key)"
  unfolding link_table_def by (simp add: map_add_def)

lemma link_table_emulbloc:
  "j < length (irs irb) \<Longrightarrow>
   link_table (cst_propag_link (emulbloc self irb)) (label irb, j) =
     Some (step_links (fix_ir_arch self) (symbols self) (irs irb) j)"
  by (simp add: emulbloc_link link_table_append map_of_rev_indexed)

lemma links_loop_map_of:
  "map_of (links_loop ir st as acc) k =
     (case map_of (rev (map (\<lambda>a. (propag_expr_cst ir st a, a)) as)) k of
        Some a \<Rightarrow> Some a | None \<Rightarrow> map_of acc k)"
proof (induction as arbitrary: acc)
  case Nil
  then show ?case by simp
next
  case (Cons a as)
  show ?case
    by (simp add: Cons.IH Let_def update_conv' map_add_def split: option.splits)
qed

lemma links_loop_entry:
  "map_of (links_loop ir st as []) k = Some arg \<Longrightarrow>
     arg \<in> set as \<and> k = propag_expr_cst ir st arg"
  by (auto simp: links_loop_map_of split: option.splits dest!: map_of_SomeD)

lemma replace_expr_Nil: "replace_expr [] e = e"
  by (induction e) (simp_all add: map_idI)

text \<open>
  C10. For every pair (key, operand) recorded in the links that \<^verbatim>\<open>emulbloc\<close> stores for a
  step, the operand is an operand of the instruction of that step and the key is the
  simplification by \<^verbatim>\<open>expr_simp\<close> of the operand after the substitution; when the
  substitution is empty the key is \<^verbatim>\<open>expr_simp\<close> of the operand itself, mapped back to the
  operand.
\<close>

theorem link_keys_are_simplified_rewrites:
  assumes "j < length (irs irb)"
      and "link_table (cst_propag_link (emulbloc self irb)) (label irb, j) = Some links"
      and "map_of links k = Some arg"
  shows "arg \<in> set (args (instr (irs irb ! j)))
         \<and> k = expr_simp (fix_ir_arch self)
                 (replace_expr
                    (to_propag_of (fix_ir_arch self)
                       (foldl (eval_ir (fix_ir_arch self)) (symbols self) (take j (irs irb))) arg)
                    arg)
         \<and> (to_propag_of (fix_ir_arch self)
               (foldl (eval_ir (fix_ir_arch self)) (symbols self) (take j (irs irb))) arg = []
             \<longrightarrow> k = expr_simp (fix_ir_arch self) arg)"
proof -
  have "links = step_links (fix_ir_arch self) (symbols self) (irs irb) j"
    using assms(1,2) by (simp add: link_table_emulbloc)
  with assms(3) have e: "arg \<in> set (args (instr (irs irb ! j)))
      \<and> k = propag_expr_cst (fix_ir_arch self)
              (foldl (eval_ir (fix_ir_arch self)) (symbols self) (take j (irs irb))) arg"
    by (simp add: step_links_def links_loop_entry)
  then show ?thesis
    by (auto simp: propag_expr_cst_def replace_expr_Nil)
qed

theorem link_keys_are_simplified_rewrites_witness:
  "(1::nat) < length (irs sample_block1) \<and> 0 < length (irs sample_block1)
   \<and> link_table (cst_propag_link
        (emulbloc (SymbExecStateFix (sample_arch sample_blocks) sample_infos []) sample_block1))
        (label sample_block1, 0)
      = Some [(ExprInt 5 32, ExprId ''EBX'' 32),
              (ExprInt 3 32, ExprOp ''+'' [ExprInt 1 32, ExprInt 2 32])]
   \<and> to_propag_of (sample_arch sample_blocks) sample_infos
        (ExprOp ''+'' [ExprInt 1 32, ExprInt 2 32]) = []
   \<and> ExprInt 3 32 = expr_simp (sample_arch sample_blocks)
                       (ExprOp ''+'' [ExprInt 1 32, ExprInt 2 32])
   \<and> ExprOp ''+'' [ExprInt 1 32, ExprInt 2 32]
       \<in> set (args (instr (irs sample_block1 ! 0)))"
proof -
  let ?self = "SymbExecStateFix (sample_arch sample_blocks) sample_infos []"
  have j: "0 < length (irs sample_block1)"
    by (simp add: sample_block1_def)
  have "step_links (fix_ir_arch ?self) (symbols ?self) (irs sample_block1) 0
      = [(ExprInt 5 32, ExprId ''EBX'' 32),
         (ExprInt 3 32, ExprOp ''+'' [ExprInt 1 32, ExprInt 2 32])]"
    by (simp add: step_links_def SymbExecStateFix_def
          sample_arch_def sample_infos_def sample_block1_def propag_expr_cst_def
          to_propag_of_def is_expr_cst_def Let_def)
  then have l: "link_table (cst_propag_link (emulbloc ?self sample_block1)) (label sample_block1, 0)
      = Some [(ExprInt 5 32, ExprId ''EBX'' 32),
              (ExprInt 3 32, ExprOp ''+'' [ExprInt 1 32, ExprInt 2 32])]"
    using link_table_emulbloc [OF j, of ?self] by simp
  have m: "map_of [(ExprInt 5 32, ExprId ''EBX'' 32),
              (ExprInt 3 32, ExprOp ''+'' [ExprInt 1 32, ExprInt 2 32])] (ExprInt 3 32)
           = Some (ExprOp ''+'' [ExprInt 1 32, ExprInt 2 32])"
    by simp
  have e: "to_propag_of (sample_arch sample_blocks) sample_infos
        (ExprOp ''+'' [ExprInt 1 32, ExprInt 2 32]) = []"
    by (simp add: to_propag_of_def)
  show ?thesis
    using j l e link_keys_are_simplified_rewrites [OF j l m]
    by (simp add: SymbExecStateFix_def sample_block1_def)
qed

subsection \<open>The loop over the destination values\<close>

lemma add_state_eq:
  "add_state ir td sts addr st =
     (insert (get_label ir addr) td,
      AList.update (get_label ir addr)
        (case map_of sts (get_label ir addr) of None \<Rightarrow> st | Some old \<Rightarrow> merge ir old st) sts)"
  by (simp add: add_state_def Let_def split: option.splits)

lemma dst_loop_Cons:
  "dst_loop ir st (val # rest) d =
     (if is_mem val then dst_loop ir st rest (d\<lparr>warnings := warnings d @ [val]\<rparr>)
      else dst_loop ir st rest
       (d\<lparr>todo := insert (successor_label ir val) (todo d),
          states := AList.update (successor_label ir val)
             (case map_of (states d) (successor_label ir val) of
                None \<Rightarrow> st | Some old \<Rightarrow> merge ir old st) (states d)\<rparr>))"
  by (simp add: add_state_eq successor_label_def Let_def)

lemma dst_loop_done_set: "done_set (dst_loop ir st vs d) = done_set d"
  by (induction vs arbitrary: d) (simp_all add: dst_loop_Cons del: dst_loop.simps(2))

lemma dst_loop_emulated: "emulated (dst_loop ir st vs d) = emulated d"
  by (induction vs arbitrary: d) (simp_all add: dst_loop_Cons del: dst_loop.simps(2))

lemma dst_loop_warnings: "warnings (dst_loop ir st vs d) = warnings d @ filter is_mem vs"
  by (induction vs arbitrary: d) (simp_all add: dst_loop_Cons del: dst_loop.simps(2))

lemma dst_loop_todo:
  "todo (dst_loop ir st vs d) =
     todo d \<union> set (map (successor_label ir) (filter (\<lambda>v. \<not> is_mem v) vs))"
  by (induction vs arbitrary: d) (simp_all add: dst_loop_Cons del: dst_loop.simps(2))

lemma dst_loop_states:
  "map_of (states (dst_loop ir st vs d)) l =
     filed ir st (count_list (map (successor_label ir) (filter (\<lambda>v. \<not> is_mem v) vs)) l)
       (map_of (states d) l)"
  by (induction vs arbitrary: d)
     (simp_all add: dst_loop_Cons update_conv' del: dst_loop.simps(2))

lemma dst_loop_warnings_irrelevant:
  "dst_loop ir st vs (d\<lparr>warnings := w\<rparr>) = (dst_loop ir st vs d)\<lparr>warnings := w @ filter is_mem vs\<rparr>"
proof (induction vs arbitrary: d w)
  case Nil
  show ?case by simp
next
  case (Cons v vs)
  show ?case
  proof (cases "is_mem v")
    case True
    then show ?thesis
      using Cons.IH [of "w @ [v]" d] Cons.IH [of "warnings d @ [v]" d]
      by (simp add: dst_loop_Cons del: dst_loop.simps(2))
  next
    case False
    have sw: "\<And>T S. d\<lparr>warnings := w, todo := T, states := S\<rparr> = d\<lparr>todo := T, states := S, warnings := w\<rparr>"
      by (rule driver.equality) simp_all
    from False show ?thesis
      using Cons.IH [of w "d\<lparr>todo := insert (successor_label ir v) (todo d),
          states := AList.update (successor_label ir v)
             (case map_of (states d) (successor_label ir v) of
                None \<Rightarrow> st | Some old \<Rightarrow> merge ir old st) (states d)\<rparr>"]
      by (simp add: dst_loop_Cons sw del: dst_loop.simps(2))
  qed
qed

text \<open>
  C6. A destination value that is a memory read only adds a warning: the loop over the
  destination values ends (it is total, nothing is raised), its \<^verbatim>\<open>todo\<close> and \<^verbatim>\<open>states\<close>
  are those of the loop over the remaining values alone, and each memory read is logged
  once, in the order of the values.
\<close>

theorem memory_destinations_are_skipped:
  "dst_loop ir st vals d =
     (dst_loop ir st (filter (\<lambda>v. \<not> is_mem v) vals) d)
       \<lparr>warnings := warnings d @ filter is_mem vals\<rparr>"
proof (induction vals arbitrary: d)
  case Nil
  show ?case by simp
next
  case (Cons v vs)
  show ?case
    by (simp add: dst_loop_Cons Cons.IH dst_loop_warnings_irrelevant del: dst_loop.simps(2))
qed

theorem memory_destinations_are_skipped_witness:
  "dst_loop (sample_arch sample_blocks) sample_state1
     [ExprMem (ExprId ''ESP'' 32) 32, ExprInt 1 32, ExprMem (ExprId ''EAX'' 32) 32]
     sample_driver0
   = \<lparr>todo = {0, 1}, states = [(0, sample_infos), (1, sample_state1)], done_set = {},
      emulated = [],
      warnings = [ExprMem (ExprId ''ESP'' 32) 32, ExprMem (ExprId ''EAX'' 32) 32]\<rparr>"
  using memory_destinations_are_skipped
          [of "sample_arch sample_blocks" sample_state1
              "[ExprMem (ExprId ''ESP'' 32) 32, ExprInt 1 32, ExprMem (ExprId ''EAX'' 32) 32]"
              sample_driver0]
  by (simp add: add_state_def sample_arch_def sample_driver0_def Let_def insert_commute)

subsection \<open>One pass of the driver\<close>

lemma loop_body_skip:
  "map_of (states d) lbl = Some state \<Longrightarrow> (lbl, state) \<in> done_set d \<Longrightarrow>
   loop_body ir lbl d = Inr (d\<lparr>todo := todo d - {lbl}\<rparr>)"
  by (simp add: loop_body_def)

lemma loop_body_assert:
  "map_of (states d) lbl = Some state \<Longrightarrow> (lbl, state) \<notin> done_set d \<Longrightarrow>
   blocks ir lbl = None \<Longrightarrow>
   loop_body ir lbl d =
     Inl (AssertionError,
          d\<lparr>todo := todo d - {lbl}, done_set := insert (lbl, state) (done_set d)\<rparr>)"
  by (simp add: loop_body_def)

lemma loop_body_emul:
  "map_of (states d) lbl = Some state \<Longrightarrow> (lbl, state) \<notin> done_set d \<Longrightarrow>
   blocks ir lbl \<noteq> None \<Longrightarrow>
   loop_body ir lbl d =
     Inr (dst_loop ir (del_mem_above_stack ir (snd (emul_ir_block ir state lbl)))
            (possible_values ir (fst (emul_ir_block ir state lbl)))
            (d\<lparr>todo := todo d - {lbl}, done_set := insert (lbl, state) (done_set d),
               emulated := emulated d @ [(lbl, state)]\<rparr>))"
  by (simp add: loop_body_def split_beta Let_def)

lemma loop_body_key_error:
  "map_of (states d) lbl = None \<Longrightarrow>
   loop_body ir lbl d = Inl (KeyError, d\<lparr>todo := todo d - {lbl}\<rparr>)"
  by (simp add: loop_body_def)

text \<open>
  C4. When a popped pair is emulated, the pass ends normally and, with the state \<open>st\<close>
  that the engine holds after the block (after \<^verbatim>\<open>del_mem_above_stack\<close>), every destination
  value that is not a memory read files \<open>st\<close> under its successor label and puts that
  label into \<^verbatim>\<open>todo\<close>: the entry of a label after the pass is \<open>filed\<close> as many times as the
  label is a successor, that is, \<open>st\<close> is stored when there is no entry yet and merged
  into the entry otherwise, and every other entry is unchanged.
\<close>

theorem successors_are_filed_and_queued:
  assumes "map_of (states d) lbl = Some state"
      and "(lbl, state) \<notin> done_set d"
      and "blocks ir lbl \<noteq> None"
  shows "\<exists>d'. loop_body ir lbl d = Inr d'
           \<and> todo d' = (todo d - {lbl})
                \<union> set (map (successor_label ir)
                          (filter (\<lambda>v. \<not> is_mem v)
                             (possible_values ir (fst (emul_ir_block ir state lbl)))))
           \<and> (\<forall>l. map_of (states d') l =
                  filed ir (del_mem_above_stack ir (snd (emul_ir_block ir state lbl)))
                    (count_list
                       (map (successor_label ir)
                          (filter (\<lambda>v. \<not> is_mem v)
                             (possible_values ir (fst (emul_ir_block ir state lbl))))) l)
                    (map_of (states d) l))"
  by (simp add: loop_body_emul [OF assms] dst_loop_todo dst_loop_states)

theorem successors_are_filed_and_queued_witness:
  "map_of (states sample_driver0) 0 = Some sample_infos
   \<and> (0, sample_infos) \<notin> done_set sample_driver0
   \<and> blocks (sample_arch sample_blocks) 0 \<noteq> None
   \<and> (\<exists>d'. loop_body (sample_arch sample_blocks) 0 sample_driver0 = Inr d'
          \<and> todo d' = {1}
          \<and> map_of (states d') 1 = Some sample_state1
          \<and> map_of (states d') 0 = Some sample_infos)
   \<and> (\<exists>d'. loop_body (sample_arch sample_blocks) 0
               (sample_driver0\<lparr>states :=
                  [(0, sample_infos),
                   (1, [(ExprId ''EAX'' 32, ExprInt 5 32), (ExprId ''EBX'' 32, ExprInt 9 32)])]\<rparr>)
             = Inr d'
          \<and> map_of (states d') 1 = Some [(ExprId ''EAX'' 32, ExprInt 5 32)])"
proof -
  let ?d2 = "sample_driver0\<lparr>states :=
                  [(0, sample_infos),
                   (1, [(ExprId ''EAX'' 32, ExprInt 5 32), (ExprId ''EBX'' 32, ExprInt 9 32)])]\<rparr>"
  have h2: "map_of (states ?d2) 0 = Some sample_infos"
          "(0, sample_infos) \<notin> done_set ?d2"
    by (simp_all add: sample_driver0_def)
  have h: "map_of (states sample_driver0) 0 = Some sample_infos"
          "(0, sample_infos) \<notin> done_set sample_driver0"
          "blocks (sample_arch sample_blocks) 0 \<noteq> None"
    by (simp_all add: sample_driver0_def sample_arch_def sample_blocks_def)
  have e: "sample_emul_ir_block sample_blocks sample_infos 0 = (ExprInt 1 32, sample_state1)"
    by (simp add: sample_defs)
  obtain d' where d':
    "loop_body (sample_arch sample_blocks) 0 sample_driver0 = Inr d'"
    "todo d' = (todo sample_driver0 - {0}) \<union> {1}"
    "\<And>l. map_of (states d') l =
       filed (sample_arch sample_blocks) sample_state1 (count_list [1] l)
         (map_of (states sample_driver0) l)"
    using successors_are_filed_and_queued [OF h]
    by (auto simp: sample_arch_sel e successor_label_def)
  have "todo d' = {1}"
    using d'(2) by (simp add: sample_driver0_def)
  moreover have "map_of (states d') 1 = Some sample_state1"
    by (simp add: d'(3) sample_driver0_def)
  moreover have "map_of (states d') 0 = Some sample_infos"
    by (simp add: d'(3) sample_driver0_def)
  ultimately have first: "\<exists>d'. loop_body (sample_arch sample_blocks) 0 sample_driver0 = Inr d'
          \<and> todo d' = {1}
          \<and> map_of (states d') 1 = Some sample_state1
          \<and> map_of (states d') 0 = Some sample_infos"
    using d'(1) by blast
  obtain d'' where d'':
    "loop_body (sample_arch sample_blocks) 0 ?d2 = Inr d''"
    "\<And>l. map_of (states d'') l =
       filed (sample_arch sample_blocks) sample_state1 (count_list [1] l)
         (map_of (states ?d2) l)"
    using successors_are_filed_and_queued [OF h2 h(3)]
    by (auto simp: sample_arch_sel e successor_label_def)
  have "map_of (states d'') 1 = Some [(ExprId ''EAX'' 32, ExprInt 5 32)]"
    by (simp add: d''(2) sample_arch_sel sample_merge_def sample_state1_def)
  with d''(1) have second: "\<exists>d'. loop_body (sample_arch sample_blocks) 0 ?d2 = Inr d'
          \<and> map_of (states d') 1 = Some [(ExprId ''EAX'' 32, ExprInt 5 32)]"
    by blast
  show ?thesis
    using h first second by blast
qed

subsection \<open>The runs of the driver\<close>

lemma filed_None: "filed ir st n entry = None \<longleftrightarrow> n = 0 \<and> entry = None"
  by (induction n arbitrary: entry) auto

lemma dst_loop_has_entry:
  "map_of (states (dst_loop ir st vs d)) l \<noteq> None \<longleftrightarrow>
     l \<in> set (map (successor_label ir) (filter (\<lambda>v. \<not> is_mem v) vs))
     \<or> map_of (states d) l \<noteq> None"
  by (auto simp add: dst_loop_states filed_None count_list_0_iff)

lemma loop_body_inv:
  assumes "driver_inv ir d" and "loop_body ir lbl d = Inr d'"
  shows "driver_inv ir d'"
proof (cases "map_of (states d) lbl")
  case None
  with assms(2) show ?thesis by (simp add: loop_body_key_error)
next
  case (Some state)
  show ?thesis
  proof (cases "(lbl, state) \<in> done_set d")
    case True
    with Some assms show ?thesis
      by (auto simp: loop_body_skip driver_inv_def)
  next
    case False
    show ?thesis
    proof (cases "blocks ir lbl = None")
      case True
      with Some False assms(2) show ?thesis by (simp add: loop_body_assert)
    next
      case nb: False
      have d': "d' = dst_loop ir (del_mem_above_stack ir (snd (emul_ir_block ir state lbl)))
            (possible_values ir (fst (emul_ir_block ir state lbl)))
            (d\<lparr>todo := todo d - {lbl}, done_set := insert (lbl, state) (done_set d),
               emulated := emulated d @ [(lbl, state)]\<rparr>)"
        using assms(2) by (simp add: loop_body_emul [OF Some False nb])
      have 1: "distinct (emulated d')"
        using assms(1) False by (auto simp: driver_inv_def d' dst_loop_emulated)
      have 2: "set (emulated d') \<subseteq> done_set d'"
        using assms(1) by (auto simp: driver_inv_def d' dst_loop_emulated dst_loop_done_set)
      have 3: "\<forall>l \<in> todo d'. map_of (states d') l \<noteq> None"
        using assms(1) unfolding driver_inv_def d' dst_loop_todo dst_loop_has_entry
        by auto
      have 4: "\<forall>p \<in> done_set d'. blocks ir (fst p) \<noteq> None"
        using assms(1) nb by (auto simp: driver_inv_def d' dst_loop_done_set)
      show ?thesis
        unfolding driver_inv_def using 1 2 3 4 by blast
    qed
  qed
qed

lemma loop_body_error:
  assumes "loop_body ir lbl d = Inl (e, d')"
  shows "emulated d' = emulated d"
proof (cases "map_of (states d) lbl")
  case None
  with assms show ?thesis by (auto simp: loop_body_key_error)
next
  case (Some state)
  with assms show ?thesis
    by (cases "(lbl, state) \<in> done_set d"; cases "blocks ir lbl = None")
       (auto simp: loop_body_skip loop_body_assert loop_body_emul)
qed


lemma compute_loop_distinct:
  "driver_inv ir d \<Longrightarrow> distinct (emulated (snd (compute_loop ir pops d)))"
proof (induction pops arbitrary: d)
  case Nil
  then show ?case by (simp add: driver_inv_def)
next
  case (Cons lbl pops)
  show ?case
  proof (cases "loop_body ir lbl d")
    case (Inl p)
    obtain e d' where p: "p = (e, d')" by (cases p)
    have "emulated d' = emulated d"
      using Inl p by (simp add: loop_body_error)
    with Cons.prems Cons.IH [of d] Inl p show ?thesis
      by (auto simp: driver_inv_def)
  next
    case (Inr d')
    with Cons.prems Cons.IH [of d'] Cons.IH [of d] loop_body_inv [of ir d lbl d']
    show ?thesis by (auto simp: driver_inv_def)
  qed
qed


lemma init_inv:
  "driver_inv ir \<lparr>todo = {lbl}, states = [(lbl, state)], done_set = {}, emulated = [],
                  warnings = []\<rparr>"
  by (simp add: driver_inv_def)

text \<open>
  C3. A popped pair that is already in \<^verbatim>\<open>done\<close> is skipped: the pass only removes the label
  from \<^verbatim>\<open>todo\<close>. A popped pair that is not in \<^verbatim>\<open>done\<close> is added to it first: when the block is
  missing the assertion fails with the pair added and nothing emulated, otherwise the
  pair is emulated, once. Hence, whatever the order of the pops and however long the run,
  the pairs emulated by \<^verbatim>\<open>compute_cst_propagation_states\<close> are pairwise different.
\<close>

theorem no_pair_is_emulated_twice:
  "(map_of (states d) lbl = Some state \<and> (lbl, state) \<in> done_set d \<longrightarrow>
      loop_body ir lbl d = Inr (d\<lparr>todo := todo d - {lbl}\<rparr>))
   \<and> (map_of (states d) lbl = Some state \<and> (lbl, state) \<notin> done_set d \<longrightarrow>
        (blocks ir lbl = None \<longrightarrow>
           loop_body ir lbl d =
             Inl (AssertionError,
                  d\<lparr>todo := todo d - {lbl}, done_set := insert (lbl, state) (done_set d)\<rparr>))
        \<and> (blocks ir lbl \<noteq> None \<longrightarrow>
             (\<exists>d'. loop_body ir lbl d = Inr d'
                \<and> done_set d' = insert (lbl, state) (done_set d)
                \<and> emulated d' = emulated d @ [(lbl, state)])))
   \<and> distinct (emulated (snd (compute_cst_propagation_states ir pops init_addr init_infos)))"
proof (intro conjI impI)
  show "distinct (emulated (snd (compute_cst_propagation_states ir pops init_addr init_infos)))"
    by (simp add: compute_cst_propagation_states_def Let_def compute_loop_distinct init_inv)
qed (auto simp: loop_body_skip loop_body_assert loop_body_emul dst_loop_done_set
       dst_loop_emulated)

theorem no_pair_is_emulated_twice_witness:
  "map_of (states sample_driver1) 0 = Some sample_infos
   \<and> (0, sample_infos) \<in> done_set sample_driver1
   \<and> loop_body (sample_arch sample_blocks) 0 sample_driver1
       = Inr (sample_driver1\<lparr>todo := todo sample_driver1 - {0}\<rparr>)
   \<and> map_of (states sample_driver1) 1 = Some sample_state1
   \<and> (1, sample_state1) \<notin> done_set sample_driver1
   \<and> blocks (sample_arch sample_blocks_only0) 1 = None
   \<and> loop_body (sample_arch sample_blocks_only0) 1 sample_driver1
       = Inl (AssertionError,
              sample_driver1\<lparr>todo := todo sample_driver1 - {1},
                 done_set := insert (1, sample_state1) (done_set sample_driver1)\<rparr>)
   \<and> blocks (sample_arch sample_blocks) 1 \<noteq> None
   \<and> (\<exists>d'. loop_body (sample_arch sample_blocks) 1 sample_driver1 = Inr d'
          \<and> done_set d' = insert (1, sample_state1) (done_set sample_driver1)
          \<and> emulated d' = emulated sample_driver1 @ [(1, sample_state1)])
   \<and> distinct (emulated (snd (compute_cst_propagation_states (sample_arch sample_blocks)
                                 [0, 1] (AddrInt 0) sample_infos)))"
proof -
  have h0: "map_of (states sample_driver1) 0 = Some sample_infos"
           "(0, sample_infos) \<in> done_set sample_driver1"
    by (simp_all add: sample_driver1_def)
  have h1: "map_of (states sample_driver1) 1 = Some sample_state1"
           "(1, sample_state1) \<notin> done_set sample_driver1"
    by (simp_all add: sample_driver1_def sample_state1_def sample_infos_def)
  have b0: "blocks (sample_arch sample_blocks_only0) 1 = None"
    by (simp add: sample_arch_def sample_blocks_only0_def)
  have b1: "blocks (sample_arch sample_blocks) 1 \<noteq> None"
    by (simp add: sample_arch_def sample_blocks_def)
  note skip = no_pair_is_emulated_twice
        [where ir = "sample_arch sample_blocks" and d = sample_driver1 and lbl = 0
           and state = sample_infos and pops = "[0, 1]" and init_addr = "AddrInt 0"
           and init_infos = sample_infos]
  note fail = no_pair_is_emulated_twice
        [where ir = "sample_arch sample_blocks_only0" and d = sample_driver1 and lbl = 1
           and state = sample_state1 and pops = "[]" and init_addr = "AddrInt 0"
           and init_infos = sample_infos]
  note emul = no_pair_is_emulated_twice
        [where ir = "sample_arch sample_blocks" and d = sample_driver1 and lbl = 1
           and state = sample_state1 and pops = "[]" and init_addr = "AddrInt 0"
           and init_infos = sample_infos]
  show ?thesis
    using h0 h1 b0 b1 skip fail emul by blast
qed







subsection \<open>The rewrite pass on all blocks\<close>

lemma is_expr_cst_blocks [simp]: "is_expr_cst (ir\<lparr>blocks := b\<rparr>) = is_expr_cst ir"
  by (simp add: fun_eq_iff is_expr_cst_def)

lemma to_propag_loop_blocks [simp]:
  "to_propag_loop (ir\<lparr>blocks := b\<rparr>) st els tp = to_propag_loop ir st els tp"
  by (induction els arbitrary: tp) (simp_all add: Let_def)

lemma propag_expr_cst_blocks [simp]:
  "propag_expr_cst (ir\<lparr>blocks := b\<rparr>) = propag_expr_cst ir"
  by (simp add: fun_eq_iff propag_expr_cst_def to_propag_of_def)

lemma links_loop_blocks [simp]:
  "links_loop (ir\<lparr>blocks := b\<rparr>) st as acc = links_loop ir st as acc"
  by (induction as arbitrary: acc) (simp_all add: Let_def)

lemma step_links_blocks [simp]:
  "step_links (ir\<lparr>blocks := b\<rparr>) = step_links ir"
  by (simp add: fun_eq_iff step_links_def)

lemma block_links_blocks [simp]:
  "block_links (ir\<lparr>blocks := b\<rparr>) = block_links ir"
  by (simp add: fun_eq_iff block_links_def)

lemma emulbloc_link_block:
  "cst_propag_link (emulbloc self irb) =
     cst_propag_link self @ block_links (fix_ir_arch self) (label irb) (symbols self) irb"
  by (simp add: emulbloc_link block_links_def)

lemma propagate_loop_log:
  assumes "wf_blocks (blocks ir)" and "distinct (map fst items)"
      and "propagate_loop items ir lnk = (Returned, ir', lnk')"
  shows "(\<forall>p \<in> set items. blocks ir (fst p) \<noteq> None)
         \<and> lnk' = lnk @ concat (map (\<lambda>p. block_links ir (fst p) (snd p) (the (blocks ir (fst p))))
                                 items)"
  using assms
proof (induction items arbitrary: ir lnk)
  case Nil
  then show ?case by simp
next
  case (Cons p items)
  obtain lbl state where p: "p = (lbl, state)" by (cases p)
  from Cons.prems(3) p obtain irb where irb: "blocks ir lbl = Some irb"
    by (cases "blocks ir lbl") (auto simp: Let_def)
  have lab: "label irb = lbl"
    using Cons.prems(1) irb by (simp add: wf_blocks_def)
  let ?self = "emulbloc (SymbExecStateFix ir state lnk) irb"
  let ?blk = "\<lparr>label = lbl, irs = map (step_assignblk ir state (irs irb)) [0..<length (irs irb)]\<rparr>"
  have ir1: "fix_ir_arch ?self = ir\<lparr>blocks := (blocks ir)(lbl \<mapsto> ?blk)\<rparr>"
    by (simp add: emulbloc_ir SymbExecStateFix_def lab)
  have lnk1: "cst_propag_link ?self = lnk @ block_links ir lbl state irb"
    by (simp add: emulbloc_link_block SymbExecStateFix_def lab)
  have run: "propagate_loop items (fix_ir_arch ?self) (cst_propag_link ?self)
               = (Returned, ir', lnk')"
    using Cons.prems(3) p irb by (simp add: Let_def)
  have wf1: "wf_blocks (blocks (fix_ir_arch ?self))"
    using Cons.prems(1) by (simp add: ir1 wf_blocks_def)
  have dist: "distinct (map fst items)" and notin: "lbl \<notin> fst ` set items"
    using Cons.prems(2) p by simp_all
  from Cons.IH [OF wf1 dist run]
  have ih: "\<forall>q \<in> set items. blocks (fix_ir_arch ?self) (fst q) \<noteq> None"
    "lnk' = cst_propag_link ?self
        @ concat (map (\<lambda>q. block_links (fix_ir_arch ?self) (fst q) (snd q)
                              (the (blocks (fix_ir_arch ?self) (fst q)))) items)"
    by simp_all
  have same: "\<And>q. q \<in> set items \<Longrightarrow> blocks (fix_ir_arch ?self) (fst q) = blocks ir (fst q)"
    using notin by (auto simp: ir1)
  have "map (\<lambda>q. block_links (fix_ir_arch ?self) (fst q) (snd q)
                   (the (blocks (fix_ir_arch ?self) (fst q)))) items
        = map (\<lambda>q. block_links ir (fst q) (snd q) (the (blocks ir (fst q)))) items"
    by (rule map_cong [OF refl]) (simp add: same, simp add: ir1)
  with ih same show ?case
    by (simp add: p irb lnk1)
qed

lemma dst_loop_keys:
  "distinct (map fst (states d)) \<Longrightarrow> distinct (map fst (states (dst_loop ir st vs d)))"
  by (induction vs arbitrary: d) (simp_all add: dst_loop_Cons distinct_update del: dst_loop.simps(2))

lemma loop_body_keys:
  assumes "distinct (map fst (states d))" and "loop_body ir lbl d = Inr d'"
  shows "distinct (map fst (states d'))"
proof (cases "map_of (states d) lbl")
  case None
  with assms(2) show ?thesis by (simp add: loop_body_key_error)
next
  case (Some state)
  show ?thesis
  proof (cases "(lbl, state) \<in> done_set d")
    case True
    with Some assms show ?thesis by (auto simp: loop_body_skip)
  next
    case False
    show ?thesis
    proof (cases "blocks ir lbl = None")
      case True
      with Some False assms(2) show ?thesis by (simp add: loop_body_assert)
    next
      case nb: False
      show ?thesis
        using assms by (auto simp: loop_body_emul [OF Some False nb] intro!: dst_loop_keys)
    qed
  qed
qed

lemma compute_loop_keys:
  "distinct (map fst (states d)) \<Longrightarrow>
   distinct (map fst (states (snd (compute_loop ir pops d))))"
proof (induction pops arbitrary: d)
  case Nil
  then show ?case by simp
next
  case (Cons lbl pops)
  show ?case
  proof (cases "loop_body ir lbl d")
    case (Inl p)
    obtain e d' where p: "p = (e, d')" by (cases p)
    have "states d' = states d"
    proof (cases "map_of (states d) lbl")
      case None
      with Inl p show ?thesis by (auto simp: loop_body_key_error)
    next
      case (Some state)
      with Inl p show ?thesis
        by (cases "(lbl, state) \<in> done_set d"; cases "blocks ir lbl = None")
           (auto simp: loop_body_skip loop_body_assert loop_body_emul)
    qed
    with Cons.prems Cons.IH [of d] Inl p show ?thesis by auto
  next
    case (Inr d')
    with Cons.prems Cons.IH [of d'] Cons.IH [of d] loop_body_keys [of d ir lbl d']
    show ?thesis by auto
  qed
qed

lemma block_links_keys:
  "map fst (block_links ir l st irb) = map (\<lambda>j. (l, j)) [0..<length (irs irb)]"
  by (simp add: block_links_def comp_def)

lemma log_keys_distinct:
  "distinct (map fst items) \<Longrightarrow>
   distinct (map fst (concat (map (\<lambda>p. block_links ir (fst p) (snd p) (g (fst p))) items)))"
proof (induction items)
  case Nil
  show ?case by simp
next
  case (Cons p items)
  let ?tl = "map fst (concat (map (\<lambda>p. block_links ir (fst p) (snd p) (g (fst p))) items))"
  let ?hd = "map fst (block_links ir (fst p) (snd p) (g (fst p)))"
  have A: "\<And>k. k \<in> set ?tl \<Longrightarrow> fst k \<in> fst ` set items"
    by (force simp: block_links_def)
  have B: "\<And>k. k \<in> set ?hd \<Longrightarrow> fst k = fst p"
    by (auto simp: block_links_def)
  have "set ?hd \<inter> set ?tl = {}"
  proof (rule ccontr)
    assume "set ?hd \<inter> set ?tl \<noteq> {}"
    then obtain k where "k \<in> set ?hd" "k \<in> set ?tl" by blast
    with A [of k] B [of k] Cons.prems show False by simp
  qed
  moreover have "distinct ?hd"
    by (simp add: block_links_keys distinct_map inj_on_def)
  moreover have "distinct ?tl"
    using Cons by simp
  ultimately show ?case by simp
qed

lemma count_list_distinct: "distinct xs \<Longrightarrow> x \<in> set xs \<Longrightarrow> count_list xs x = 1"
  by (induction xs) auto

lemma last_wins:
  "arg \<in> set as \<Longrightarrow>
   map_of (rev (map (\<lambda>a. (f a, a)) as)) (f arg) = Some (last (filter (\<lambda>a. f a = f arg) as))"
proof (induction as rule: rev_induct)
  case Nil
  then show ?case by simp
next
  case (snoc x xs)
  then show ?case by (cases "f x = f arg") auto
qed

lemma links_loop_empty: "links_loop ir st as acc = [] \<longleftrightarrow> as = [] \<and> acc = []"
proof (induction as arbitrary: acc)
  case Nil
  show ?case by simp
next
  case (Cons a as)
  have "AList.update (propag_expr_cst ir st a) a acc \<noteq> []"
    by (cases acc) auto
  then show ?case by (simp add: Cons.IH Let_def)
qed

text \<open>
  C5, as the claim states it, fails where it says that the entry maps each rewritten
  operand to the corresponding original operand. In block 0 of the sample, entered with
  \<open>EAX = 5\<close> and \<open>EBX = 5\<close>, the instruction has the operands \<open>EAX\<close> and \<open>EBX\<close>; both are
  rewritten to the literal 5, and the entry returned under the key (0, 0) maps 5 to \<open>EBX\<close>
  only: the rewritten form of the operand \<open>EAX\<close> is not mapped to \<open>EAX\<close>.
\<close>

theorem link_entry_collision_counterexample:
  "fst (propagate_cst_expr (sample_arch sample_blocks) [0, 1] (AddrInt 0) sample_infos) = Returned
   \<and> blocks (sample_arch sample_blocks) 0 = Some sample_block0
   \<and> args (instr (irs sample_block0 ! 0)) = [ExprId ''EAX'' 32, ExprId ''EBX'' 32]
   \<and> propag_expr_cst (sample_arch sample_blocks) sample_infos (ExprId ''EAX'' 32) = ExprInt 5 32
   \<and> link_table
         (snd (snd (propagate_cst_expr (sample_arch sample_blocks) [0, 1] (AddrInt 0)
                      sample_infos))) (0, 0)
       = Some [(ExprInt 5 32, ExprId ''EBX'' 32)]
   \<and> map_of [(ExprInt 5 32, ExprId ''EBX'' 32)] (ExprInt 5 32) \<noteq> Some (ExprId ''EAX'' 32)"
  by code_simp

text \<open>
  C5, amended. Let the block table be well formed and let \<^verbatim>\<open>propagate_cst_expr\<close> return.
  For every label of the fixpoint result, with its entering state, the label has a block,
  and for every step index \<open>j\<close> of that block the key (label, \<open>j\<close>) is written exactly
  once and the returned table holds under it the links of step \<open>j\<close>: they map the
  rewritten form of each operand of the instruction of the step to the last operand, in
  operand order, that has this rewritten form (so to the operand itself when no later
  operand is rewritten to the same expression), and they are empty exactly when the
  instruction has no operands.
\<close>

theorem link_table_complete:
  assumes "propagate_cst_expr ir pops addr init_infos = (Returned, ir', lnk)"
      and "wf_blocks (blocks ir)"
      and "(lbl, state)
             \<in> set (states (snd (compute_cst_propagation_states ir pops addr init_infos)))"
  shows "\<exists>irb. blocks ir lbl = Some irb
           \<and> (\<forall>j < length (irs irb).
                 count_list (map fst lnk) (lbl, j) = 1
                 \<and> link_table lnk (lbl, j) = Some (step_links ir state (irs irb) j)
                 \<and> (\<forall>arg \<in> set (args (instr (irs irb ! j))).
                       map_of (step_links ir state (irs irb) j)
                         (propag_expr_cst ir (foldl (eval_ir ir) state (take j (irs irb))) arg)
                       = Some (last (filter
                            (\<lambda>a. propag_expr_cst ir (foldl (eval_ir ir) state (take j (irs irb))) a
                                 = propag_expr_cst ir (foldl (eval_ir ir) state (take j (irs irb))) arg)
                            (args (instr (irs irb ! j))))))
                 \<and> (step_links ir state (irs irb) j = [] \<longleftrightarrow> args (instr (irs irb ! j)) = []))"
proof -
  obtain stat d where c: "compute_cst_propagation_states ir pops addr init_infos = (stat, d)"
    by (cases "compute_cst_propagation_states ir pops addr init_infos")
  have ret: "stat = Returned"
    using assms(1) c by (cases stat) (simp_all add: propagate_cst_expr_def)
  then have run: "propagate_loop (states d) ir [] = (Returned, ir', lnk)"
    using assms(1) c by (simp add: propagate_cst_expr_def)
  have mem: "(lbl, state) \<in> set (states d)"
    using assms(3) c by simp
  have keys: "distinct (map fst (states d))"
    using compute_loop_keys
            [of "\<lparr>todo = {get_label ir addr},
                  states = [(get_label ir addr, StateEngine ir init_infos)],
                  done_set = {}, emulated = [], warnings = []\<rparr>" ir pops] c
    by (simp add: compute_cst_propagation_states_def Let_def)
  from propagate_loop_log [OF assms(2) keys run]
  have nb: "\<forall>p \<in> set (states d). blocks ir (fst p) \<noteq> None"
    and lnk: "lnk = concat (map (\<lambda>p. block_links ir (fst p) (snd p) (the (blocks ir (fst p))))
                            (states d))"
    by simp_all
  from nb mem obtain irb where irb: "blocks ir lbl = Some irb" by force
  have dl: "distinct (map fst lnk)"
    unfolding lnk by (rule log_keys_distinct [OF keys])
  have inlog: "\<And>j. j < length (irs irb) \<Longrightarrow>
                 ((lbl, j), step_links ir state (irs irb) j) \<in> set lnk"
    unfolding lnk using mem irb by (force simp: block_links_def)
  show ?thesis
  proof (intro exI conjI allI impI ballI)
    show "blocks ir lbl = Some irb" by (rule irb)
  next
    fix j assume j: "j < length (irs irb)"
    have "(lbl, j) \<in> set (map fst lnk)"
      using inlog [OF j] by force
    then show "count_list (map fst lnk) (lbl, j) = 1"
      using dl by (rule count_list_distinct [rotated])
    have "distinct (map fst (rev lnk))"
      using dl by (simp add: rev_map [symmetric])
    then show "link_table lnk (lbl, j) = Some (step_links ir state (irs irb) j)"
      unfolding link_table_def using inlog [OF j] by simp
    show "step_links ir state (irs irb) j = [] \<longleftrightarrow> args (instr (irs irb ! j)) = []"
      by (simp add: step_links_def links_loop_empty)
  next
    fix j arg
    assume "j < length (irs irb)" and arg: "arg \<in> set (args (instr (irs irb ! j)))"
    show "map_of (step_links ir state (irs irb) j)
            (propag_expr_cst ir (foldl (eval_ir ir) state (take j (irs irb))) arg)
          = Some (last (filter
               (\<lambda>a. propag_expr_cst ir (foldl (eval_ir ir) state (take j (irs irb))) a
                    = propag_expr_cst ir (foldl (eval_ir ir) state (take j (irs irb))) arg)
               (args (instr (irs irb ! j)))))"
      using last_wins [OF arg, of "propag_expr_cst ir (foldl (eval_ir ir) state (take j (irs irb)))"]
      by (simp add: step_links_def links_loop_map_of)
  qed
qed

theorem link_table_complete_witness:
  "propagate_cst_expr (sample_arch sample_blocks) [0, 1] (AddrInt 0) sample_infos
     = (Returned,
        fst (snd (propagate_cst_expr (sample_arch sample_blocks) [0, 1] (AddrInt 0) sample_infos)),
        [((0, 0), [(ExprInt 5 32, ExprId ''EBX'' 32)]),
         ((1, 0), [(ExprInt 5 32, ExprId ''EBX'' 32),
                   (ExprInt 3 32, ExprOp ''+'' [ExprInt 1 32, ExprInt 2 32])]),
         ((1, 1), [])])
   \<and> wf_blocks (blocks (sample_arch sample_blocks))
   \<and> (0, sample_infos)
        \<in> set (states (snd (compute_cst_propagation_states (sample_arch sample_blocks) [0, 1]
                               (AddrInt 0) sample_infos)))
   \<and> blocks (sample_arch sample_blocks) 0 = Some sample_block0
   \<and> (0::nat) < length (irs sample_block0)
   \<and> count_list
        (map fst [((0::nat, 0::nat), [(ExprInt 5 32, ExprId ''EBX'' 32)]),
                  ((1, 0), [(ExprInt 5 32, ExprId ''EBX'' 32),
                            (ExprInt 3 32, ExprOp ''+'' [ExprInt 1 32, ExprInt 2 32])]),
                  ((1, 1), [])]) (0, 0) = 1
   \<and> step_links (sample_arch sample_blocks) sample_infos (irs sample_block0) 0
       = [(ExprInt 5 32, ExprId ''EBX'' 32)]
   \<and> map_of (step_links (sample_arch sample_blocks) sample_infos (irs sample_block0) 0)
        (propag_expr_cst (sample_arch sample_blocks) sample_infos (ExprId ''EAX'' 32))
       = Some (ExprId ''EBX'' 32)"
proof -
  let ?A = "sample_arch sample_blocks"
  let ?P = "propagate_cst_expr ?A [0, 1] (AddrInt 0) sample_infos"
  let ?L = "[((0::nat, 0::nat), [(ExprInt 5 32, ExprId ''EBX'' 32)]),
             ((1, 0), [(ExprInt 5 32, ExprId ''EBX'' 32),
                       (ExprInt 3 32, ExprOp ''+'' [ExprInt 1 32, ExprInt 2 32])]),
             ((1, 1), [])]"
  have "fst ?P = Returned \<and> snd (snd ?P) = ?L"
    by code_simp
  then have run: "?P = (Returned, fst (snd ?P), ?L)"
    by (cases ?P) auto
  have wf: "wf_blocks (blocks ?A)"
    by (auto simp: wf_blocks_def sample_arch_def sample_blocks_def sample_block0_def
          sample_block1_def split: if_splits)
  have mem: "(0, sample_infos)
        \<in> set (states (snd (compute_cst_propagation_states ?A [0, 1] (AddrInt 0) sample_infos)))"
    by code_simp
  have blk: "blocks ?A 0 = Some sample_block0"
    by (simp add: sample_arch_def sample_blocks_def)
  have j: "(0::nat) < length (irs sample_block0)"
    by (simp add: sample_block0_def)
  have a: "args (instr (irs sample_block0 ! 0)) = [ExprId ''EAX'' 32, ExprId ''EBX'' 32]"
    by (simp add: sample_block0_def)
  have f: "propag_expr_cst ?A sample_infos (ExprId ''EAX'' 32) = ExprInt 5 32"
          "propag_expr_cst ?A sample_infos (ExprId ''EBX'' 32) = ExprInt 5 32"
    by code_simp+
  have sl: "step_links ?A sample_infos (irs sample_block0) 0 = [(ExprInt 5 32, ExprId ''EBX'' 32)]"
    by code_simp
  from link_table_complete [OF run wf mem]
  obtain irb where irb: "blocks ?A 0 = Some irb"
    and all: "\<And>j. j < length (irs irb) \<Longrightarrow>
        count_list (map fst ?L) (0, j) = 1
        \<and> link_table ?L (0, j) = Some (step_links ?A sample_infos (irs irb) j)
        \<and> (\<forall>arg \<in> set (args (instr (irs irb ! j))).
              map_of (step_links ?A sample_infos (irs irb) j)
                (propag_expr_cst ?A (foldl (eval_ir ?A) sample_infos (take j (irs irb))) arg)
              = Some (last (filter
                   (\<lambda>a. propag_expr_cst ?A (foldl (eval_ir ?A) sample_infos (take j (irs irb))) a
                        = propag_expr_cst ?A (foldl (eval_ir ?A) sample_infos (take j (irs irb))) arg)
                   (args (instr (irs irb ! j))))))
        \<and> (step_links ?A sample_infos (irs irb) j = [] \<longleftrightarrow> args (instr (irs irb ! j)) = [])"
    by blast
  have irb0: "irb = sample_block0"
    using irb blk by simp
  from all [of 0] j
  have c: "count_list (map fst ?L) (0, 0) = 1"
    and m: "map_of (step_links ?A sample_infos (irs sample_block0) 0)
              (propag_expr_cst ?A sample_infos (ExprId ''EAX'' 32))
            = Some (last (filter
                 (\<lambda>a. propag_expr_cst ?A sample_infos a
                      = propag_expr_cst ?A sample_infos (ExprId ''EAX'' 32))
                 [ExprId ''EAX'' 32, ExprId ''EBX'' 32]))"
    by (simp_all add: irb0 a)
  have m': "map_of (step_links ?A sample_infos (irs sample_block0) 0)
              (propag_expr_cst ?A sample_infos (ExprId ''EAX'' 32)) = Some (ExprId ''EBX'' 32)"
    using m by (simp add: f)
  show ?thesis
    using run wf mem blk j c sl m' by blast
qed

end
